theory Spec2Isabelle
  imports Main "HOL-Library.Sublist"
begin

section \<open>The keep-alive prober (tools/keep-alive.js)\<close>

text \<open>
  The script reads one environment variable, prints two banner lines, registers a
  repeating timer whose callback is \<open>pingServer\<close>, and calls \<open>pingServer\<close> once itself.
  \<open>pingServer\<close> sends one request, waits for the promise of \<open>fetch\<close> to settle, and
  prints one line inside a \<open>try\<close>/\<open>catch\<close>.

  What the script gets from its platform is a parameter of the model:
  \<^item> \<open>process.env\<close>, a map from names to strings;
  \<^item> the wall clock read through \<open>new Date().toISOString()\<close>, a function from the
    instant (in milliseconds since the process started) to the printed text;
  \<^item> the network: for the n-th call of \<open>fetch\<close>, how long the promise stays pending
    and how it settles.
\<close>

subsection \<open>Platform values\<close>

type_synonym time = nat

type_synonym environ = "string \<rightharpoonup> string"

type_synonym clock = "time \<Rightarrow> string"

record response =
  status :: nat

text \<open>The getter \<open>response.ok\<close> of the Fetch standard: the status is in 200..299.\<close>

definition ok :: "response \<Rightarrow> bool" where
  "ok r \<longleftrightarrow> 200 \<le> status r \<and> status r \<le> 299"

record js_error =
  message :: string

datatype fetch_result = Fulfilled response | Rejected js_error

type_synonym network = "nat \<Rightarrow> time \<times> fetch_result"

datatype stream = Stdout | Stderr

text \<open>One call of \<open>console.log\<close> (\<open>Stdout\<close>) or \<open>console.error\<close> (\<open>Stderr\<close>) with its
  arguments in order.\<close>

record log_entry =
  stream :: stream
  args :: "string list"

record request =
  url :: string
  http_method :: string
  headers :: "(string \<times> string) list"

text \<open>How a block of statements ends: normally, or by throwing.\<close>

datatype 'a completion = Normal 'a | Throw js_error

text \<open>A template literal prints a non-negative integer in decimal (JavaScript does so
  below \<open>10^21\<close>; the numbers printed here are a status code and the number 10).\<close>

fun Number_toString :: "nat \<Rightarrow> string" where
  "Number_toString n =
     (if n < 10 then [char_of (48 + n)]
      else Number_toString (n div 10) @ [char_of (48 + n mod 10)])"

declare Number_toString.simps [simp del]

text \<open>\<open>a || b\<close> where \<open>a\<close> is a string or \<open>undefined\<close>: \<open>b\<close> when \<open>a\<close> is falsy, that is
  \<open>undefined\<close> or the empty string.\<close>

definition or_else :: "string option \<Rightarrow> string \<Rightarrow> string" where
  "or_else a b = (case a of None \<Rightarrow> b | Some v \<Rightarrow> if v = [] then b else v)"

subsection \<open>Module constants (lines 6 to 8)\<close>

record config =
  RAILWAY_URL :: string
  PING_INTERVAL :: nat
  HEALTH_ENDPOINT :: string

definition module_consts :: "environ \<Rightarrow> config" where
  "module_consts env =
     \<lparr> RAILWAY_URL = or_else (env ''RAILWAY_URL'') ''https://your-app.railway.app'',
       PING_INTERVAL = 10 * 60 * 1000,
       HEALTH_ENDPOINT = ''/health'' \<rparr>"

subsection \<open>The printed lines\<close>

text \<open>The pictographs that open each line, as their UTF-8 bytes.\<close>

definition check_mark :: string where
  "check_mark = [CHR 0xE2, CHR 0x9C, CHR 0x85]"

definition warning_sign :: string where
  "warning_sign = [CHR 0xE2, CHR 0x9A, CHR 0xA0, CHR 0xEF, CHR 0xB8, CHR 0x8F]"

definition cross_mark :: string where
  "cross_mark = [CHR 0xE2, CHR 0x9D, CHR 0x8C]"

definition rocket :: string where
  "rocket = [CHR 0xF0, CHR 0x9F, CHR 0x9A, CHR 0x80]"

definition antenna :: string where
  "antenna = [CHR 0xF0, CHR 0x9F, CHR 0x93, CHR 0xA1]"

definition alive_line :: "string \<Rightarrow> log_entry" where
  "alive_line ts =
     \<lparr> stream = Stdout, args = [check_mark @ '' ['' @ ts @ ''] Server is alive''] \<rparr>"

definition responded_line :: "string \<Rightarrow> nat \<Rightarrow> log_entry" where
  "responded_line ts code =
     \<lparr> stream = Stdout,
       args = [warning_sign @ '' ['' @ ts @ ''] Server responded with '' @ Number_toString code] \<rparr>"

definition failed_line :: "string \<Rightarrow> string \<Rightarrow> log_entry" where
  "failed_line ts msg =
     \<lparr> stream = Stderr, args = [cross_mark @ '' ['' @ ts @ ''] Failed to ping server:'', msg] \<rparr>"

definition starting_line :: "config \<Rightarrow> log_entry" where
  "starting_line c =
     \<lparr> stream = Stdout, args = [rocket @ '' Starting keep-alive for '' @ RAILWAY_URL c] \<rparr>"

text \<open>\<open>PING_INTERVAL / 60000\<close> is a float division in the source; at the value the
  module gives the constant, 600000, the quotient is the integer 10.\<close>

definition pinging_line :: "config \<Rightarrow> log_entry" where
  "pinging_line c =
     \<lparr> stream = Stdout,
       args = [antenna @ '' Pinging every '' @ Number_toString (PING_INTERVAL c div 60000)
               @ '' minutes''] \<rparr>"

subsection \<open>pingServer (lines 10 to 27)\<close>

text \<open>The request that \<open>fetch\<close> is called with.\<close>

definition probe_request :: "config \<Rightarrow> request" where
  "probe_request c =
     \<lparr> url = RAILWAY_URL c @ HEALTH_ENDPOINT c,
       http_method = ''GET'',
       headers = [(''User-Agent'', ''KeepAlive-Bot/1.0'')] \<rparr>"

text \<open>The body of the \<open>try\<close> after the \<open>await\<close>: a rejected promise throws at the
  \<open>await\<close>, a fulfilled one reaches the \<open>if\<close>. The timestamp is read when the line is
  printed.\<close>

definition try_block :: "string \<Rightarrow> fetch_result \<Rightarrow> log_entry list completion" where
  "try_block ts fr =
     (case fr of
        Rejected e \<Rightarrow> Throw e
      | Fulfilled r \<Rightarrow>
          if ok r then Normal [alive_line ts]
          else Normal [responded_line ts (status r)])"

text \<open>The whole body after the \<open>await\<close>: the \<open>catch\<close> clause handles what the \<open>try\<close>
  threw.\<close>

definition pingServer_resume :: "string \<Rightarrow> fetch_result \<Rightarrow> log_entry list completion" where
  "pingServer_resume ts fr =
     (case try_block ts fr of
        Normal es \<Rightarrow> Normal es
      | Throw e \<Rightarrow> Normal [failed_line ts (message e)])"

subsection \<open>The process\<close>

text \<open>A promise of \<open>fetch\<close> that has not settled yet.\<close>

record pending =
  settles_at :: time
  outcome :: fetch_result

text \<open>The repeating timer of \<open>setInterval\<close>.\<close>

record timer =
  expires :: time
  delay :: time

record proc =
  cfg :: config
  now :: time
  interval_timer :: "timer option"
  in_flight :: "pending list"
  sent :: "(time \<times> request) list"
  console :: "log_entry list"
  crashed :: bool

text \<open>\<open>pingServer()\<close> up to its \<open>await\<close>: the request goes out and the promise is
  pending. The call is the n-th of the process, with n the number of requests sent
  before it.\<close>

definition pingServer_call :: "network \<Rightarrow> proc \<Rightarrow> proc" where
  "pingServer_call net s =
     (case net (length (sent s)) of
        (latency, fr) \<Rightarrow>
          s\<lparr> sent := sent s @ [(now s, probe_request (cfg s))],
             in_flight := in_flight s @ [\<lparr> settles_at = now s + latency, outcome = fr \<rparr>] \<rparr>)"

text \<open>\<open>setInterval(callback, delay)\<close>, the callback being \<open>pingServer\<close>: Node takes a
  delay below 1 or above 2147483647 as 1. The timer first expires one delay from now.\<close>

definition setInterval :: "time \<Rightarrow> proc \<Rightarrow> proc" where
  "setInterval d s =
     (let d' = (if d < 1 \<or> 2147483647 < d then 1 else d)
      in s\<lparr> interval_timer := Some \<lparr> expires = now s + d', delay = d' \<rparr> \<rparr>)"

text \<open>The top level of the module (lines 6 to 36), run at instant 0.\<close>

definition startup :: "network \<Rightarrow> environ \<Rightarrow> proc" where
  "startup net env =
     (let c = module_consts env;
          s0 = \<lparr> cfg = c, now = 0, interval_timer = None, in_flight = [], sent = [],
                 console = [], crashed = False \<rparr>;
          s1 = s0\<lparr> console := console s0 @ [starting_line c] \<rparr>;
          s2 = s1\<lparr> console := console s1 @ [pinging_line (cfg s1)] \<rparr>;
          s3 = setInterval (PING_INTERVAL (cfg s2)) s2
      in pingServer_call net s3)"

text \<open>The pending promise that settles first (the earlier call on a tie).\<close>

fun earliest :: "pending list \<Rightarrow> pending option" where
  "earliest [] = None"
| "earliest (p # ps) =
     (case earliest ps of
        None \<Rightarrow> Some p
      | Some q \<Rightarrow> if settles_at p \<le> settles_at q then Some p else Some q)"

text \<open>The timer expires: it is armed again one delay later, and the callback runs.\<close>

definition tick :: "network \<Rightarrow> timer \<Rightarrow> proc \<Rightarrow> proc" where
  "tick net t s =
     pingServer_call net
       (s\<lparr> now := expires t,
          interval_timer := Some (t\<lparr> expires := expires t + delay t \<rparr>) \<rparr>)"

text \<open>A promise settles: \<open>pingServer\<close> resumes after its \<open>await\<close>. Nothing handles the
  promise that \<open>pingServer\<close> returns, so a body that threw would end the process with an
  unhandled rejection.\<close>

definition settle :: "clock \<Rightarrow> pending \<Rightarrow> proc \<Rightarrow> proc" where
  "settle clk p s =
     (let s' = s\<lparr> now := settles_at p, in_flight := remove1 p (in_flight s) \<rparr>
      in case pingServer_resume (clk (now s')) (outcome p) of
           Normal es \<Rightarrow> s'\<lparr> console := console s' @ es \<rparr>
         | Throw e \<Rightarrow> s'\<lparr> crashed := True \<rparr>)"

text \<open>One turn of the event loop: the next thing to happen is the earliest pending
  promise if it settles before the timer expires, the timer otherwise. A crashed
  process does nothing, and neither does one with no timer and no pending promise.\<close>

definition step :: "clock \<Rightarrow> network \<Rightarrow> proc \<Rightarrow> proc" where
  "step clk net s =
     (if crashed s then s
      else case (earliest (in_flight s), interval_timer s) of
             (None, None) \<Rightarrow> s
           | (Some p, None) \<Rightarrow> settle clk p s
           | (None, Some t) \<Rightarrow> tick net t s
           | (Some p, Some t) \<Rightarrow>
               if settles_at p < expires t then settle clk p s else tick net t s)"

text \<open>The process after the top level and \<open>k\<close> turns of the event loop.\<close>

primrec run :: "clock \<Rightarrow> network \<Rightarrow> environ \<Rightarrow> nat \<Rightarrow> proc" where
  "run clk net env 0 = startup net env"
| "run clk net env (Suc k) = step clk net (run clk net env k)"

text \<open>The instants at which the probes started, in order.\<close>

definition probe_starts :: "proc \<Rightarrow> time list" where
  "probe_starts s = map fst (sent s)"

text \<open>A word is printed in an entry when it is a contiguous part of one of the
  arguments.\<close>

definition mentions :: "log_entry \<Rightarrow> string \<Rightarrow> bool" where
  "mentions e w \<longleftrightarrow> list_ex (sublist w) (args e)"

subsection \<open>Invariants of the run\<close>

text \<open>The requests of the first \<open>n\<close> probes when the timer keeps its period.\<close>

definition schedule :: "environ \<Rightarrow> nat \<Rightarrow> (time \<times> request) list" where
  "schedule env n = map (\<lambda>i. (i * 600000, probe_request (module_consts env))) [0..<n]"

definition steady :: "environ \<Rightarrow> proc \<Rightarrow> bool" where
  "steady env s \<longleftrightarrow>
     \<not> crashed s \<and> cfg s = module_consts env \<and> sent s \<noteq> [] \<and>
     interval_timer s = Some \<lparr> expires = length (sent s) * 600000, delay = 600000 \<rparr> \<and>
     schedule env (length (sent s)) = sent s \<and>
     take 2 (console s) = [starting_line (module_consts env), pinging_line (module_consts env)]"

text \<open>Every probe that has settled has printed one line, after the two banners.\<close>

definition accounted :: "proc \<Rightarrow> bool" where
  "accounted s \<longleftrightarrow> length (console s) + length (in_flight s) = 2 + length (sent s)"

text \<open>At most one promise is pending, and it settles before the timer expires.\<close>

definition calm :: "proc \<Rightarrow> bool" where
  "calm s \<longleftrightarrow> length (in_flight s) \<le> 1 \<and>
     list_all (\<lambda>p. settles_at p < length (sent s) * 600000) (in_flight s)"

text \<open>The promise of the n-th probe, when the probes start on schedule.\<close>

definition promise :: "network \<Rightarrow> nat \<Rightarrow> pending" where
  "promise net n = \<lparr> settles_at = n * 600000 + fst (net n), outcome = snd (net n) \<rparr>"

subsection \<open>Sample platforms\<close>

definition unset_env :: environ where
  "unset_env name = None"

definition example_env :: environ where
  "example_env name = (if name = ''RAILWAY_URL'' then Some ''https://example.test'' else None)"

definition plain_clock :: clock where
  "plain_clock t = Number_toString t"

text \<open>Every response takes 700 seconds, longer than the period of the timer.\<close>

definition stalled_network :: network where
  "stalled_network n = (700000, Fulfilled \<lparr> status = 200 \<rparr>)"

text \<open>Every response takes 50 milliseconds.\<close>

definition prompt_network :: network where
  "prompt_network n = (50, Fulfilled \<lparr> status = 200 \<rparr>)"

section \<open>Properties\<close>

subsection \<open>Auxiliary facts\<close>

lemma schedule_Suc:
  "schedule env (Suc n) = schedule env n @ [(n * 600000, probe_request (module_consts env))]"
  by (simp add: schedule_def)

lemma length_schedule: "length (schedule env n) = n"
  by (simp add: schedule_def)

lemma PING_INTERVAL_consts: "PING_INTERVAL (module_consts env) = 600000"
  by (simp add: module_consts_def)

lemma startup_steady: "steady env (startup net env)"
proof -
  obtain l fr where n: "net 0 = (l, fr)" by (cases "net 0")
  show ?thesis
    by (simp add: steady_def startup_def setInterval_def pingServer_call_def
      PING_INTERVAL_consts schedule_def n Let_def)
qed

lemma resume_normal: "\<exists>e. pingServer_resume ts fr = Normal [e]"
  by (simp add: pingServer_resume_def try_block_def split: fetch_result.split)

lemma settle_steady:
  assumes st: "steady env s"
  shows "steady env (settle clk p s)"
proof -
  obtain e where e: "pingServer_resume (clk (settles_at p)) (outcome p) = Normal [e]"
    using resume_normal by blast
  have two: "2 \<le> length (console s)"
  proof (rule ccontr)
    assume "\<not> 2 \<le> length (console s)"
    then have "length (take 2 (console s)) < 2" by simp
    with st show False by (simp add: steady_def)
  qed
  have flds: "crashed (settle clk p s) = crashed s" "cfg (settle clk p s) = cfg s"
    "sent (settle clk p s) = sent s" "interval_timer (settle clk p s) = interval_timer s"
    "console (settle clk p s) = console s @ [e]"
    using e by (simp_all add: settle_def)
  from two have "take 2 (console s @ [e]) = take 2 (console s)" by simp
  with st show ?thesis unfolding steady_def flds by simp
qed

lemma tick_steady:
  assumes st: "steady env s" and tm: "interval_timer s = Some t"
  shows "steady env (tick net t s)"
proof -
  let ?n = "length (sent s)"
  from st tm have t: "t = \<lparr> expires = ?n * 600000, delay = 600000 \<rparr>"
    by (simp add: steady_def)
  obtain l fr where n: "net ?n = (l, fr)" by (cases "net ?n")
  from st have c: "cfg s = module_consts env" and sch: "schedule env ?n = sent s"
    and cr: "\<not> crashed s"
    and con: "take 2 (console s) = [starting_line (module_consts env), pinging_line (module_consts env)]"
    by (simp_all add: steady_def)
  have flds: "crashed (tick net t s) = crashed s" "cfg (tick net t s) = cfg s"
    "console (tick net t s) = console s"
    "sent (tick net t s) = sent s @ [(?n * 600000, probe_request (module_consts env))]"
    "interval_timer (tick net t s) = Some \<lparr> expires = Suc ?n * 600000, delay = 600000 \<rparr>"
    by (simp_all add: tick_def pingServer_call_def n t c)
  have "schedule env (Suc ?n) = sent (tick net t s)"
    unfolding flds schedule_Suc sch ..
  then show ?thesis
    unfolding steady_def using c cr con by (simp add: flds)
qed

lemma step_steady: "steady env s \<Longrightarrow> steady env (step clk net s)"
  by (simp add: step_def settle_steady tick_steady split: option.split)

lemma run_steady: "steady env (run clk net env k)"
  by (induction k) (simp_all add: startup_steady step_steady)

lemma earliest_None: "earliest ps = None \<longleftrightarrow> ps = []"
  by (induction ps) (auto split: option.split)

lemma earliest_mem: "earliest ps = Some p \<Longrightarrow> p \<in> set ps"
  by (induction ps arbitrary: p) (auto split: option.splits if_splits)

lemma sent_settle: "sent (settle clk p s) = sent s"
  by (simp add: settle_def Let_def split: completion.split)

lemma in_flight_settle: "in_flight (settle clk p s) = remove1 p (in_flight s)"
  by (simp add: settle_def Let_def split: completion.split)

lemma sent_tick: "sent (tick net t s) = sent s @ [(expires t, probe_request (cfg s))]"
  by (simp add: tick_def pingServer_call_def split: prod.split)

lemma in_flight_tick:
  "in_flight (tick net t s) =
     in_flight s @ [\<lparr> settles_at = expires t + fst (net (length (sent s))),
                      outcome = snd (net (length (sent s))) \<rparr>]"
  by (simp add: tick_def pingServer_call_def split: prod.split)

lemma console_tick: "console (tick net t s) = console s"
  by (simp add: tick_def pingServer_call_def split: prod.split)

lemma console_settle: "\<exists>e. console (settle clk p s) = console s @ [e]"
proof -
  obtain e where "pingServer_resume (clk (settles_at p)) (outcome p) = Normal [e]"
    using resume_normal by blast
  then show ?thesis by (simp add: settle_def)
qed

lemma length_remove1_mem: "p \<in> set ps \<Longrightarrow> Suc (length (remove1 p ps)) = length ps"
  by (simp add: length_remove1) (cases ps, auto)

text \<open>From any state of the run the timer expires again after finitely many turns.\<close>

lemma sent_grows:
  "steady env s \<Longrightarrow> length (in_flight s) = m \<Longrightarrow>
     \<exists>j. length (sent s) < length (sent ((step clk net ^^ j) s))"
proof (induction m arbitrary: s)
  case 0
  then obtain t where t: "interval_timer s = Some t" by (auto simp: steady_def)
  from 0 have "step clk net s = tick net t s"
    by (simp add: step_def t steady_def)
  then have "length (sent s) < length (sent ((step clk net ^^ 1) s))"
    by (simp add: sent_tick)
  then show ?case by blast
next
  case (Suc m)
  then obtain t where t: "interval_timer s = Some t" by (auto simp: steady_def)
  from Suc.prems have nc: "\<not> crashed s" by (simp add: steady_def)
  from Suc.prems obtain p where p: "earliest (in_flight s) = Some p"
    by (cases "earliest (in_flight s)") (auto simp: earliest_None)
  show ?case
  proof (cases "settles_at p < expires t")
    case True
    then have st: "step clk net s = settle clk p s"
      by (simp add: step_def t p nc)
    have "steady env (settle clk p s)" using Suc.prems(1) by (rule settle_steady)
    moreover have "length (in_flight (settle clk p s)) = m"
      using length_remove1_mem [OF earliest_mem [OF p]] Suc.prems(2)
      by (simp add: in_flight_settle)
    ultimately obtain j where
      "length (sent (settle clk p s)) < length (sent ((step clk net ^^ j) (settle clk p s)))"
      using Suc.IH by blast
    then have "length (sent s) < length (sent ((step clk net ^^ Suc j) s))"
      by (simp add: sent_settle st funpow_swap1)
    then show ?thesis by blast
  next
    case False
    then have "step clk net s = tick net t s"
      by (simp add: step_def t p nc)
    then have "length (sent s) < length (sent ((step clk net ^^ 1) s))"
      by (simp add: sent_tick)
    then show ?thesis by blast
  qed
qed

lemma run_add: "run clk net env (k + j) = (step clk net ^^ j) (run clk net env k)"
  by (induction j) simp_all

lemma every_probe_starts: "\<exists>k. n < length (sent (run clk net env k))"
proof (induction n)
  case 0
  have "steady env (run clk net env 0)" by (rule run_steady)
  then have "0 < length (sent (run clk net env 0))" by (simp add: steady_def)
  then show ?case by blast
next
  case (Suc n)
  then obtain k where k: "n < length (sent (run clk net env k))" by blast
  obtain j where "length (sent (run clk net env k))
      < length (sent ((step clk net ^^ j) (run clk net env k)))"
    using sent_grows [OF run_steady refl] by blast
  with k have "Suc n < length (sent (run clk net env (k + j)))"
    by (simp add: run_add)
  then show ?case by blast
qed

text \<open>The lines printed are counted by the probes that have settled.\<close>

lemma startup_accounted: "accounted (startup net env)"
  by (simp add: accounted_def startup_def setInterval_def pingServer_call_def Let_def
      split: prod.split)

lemma step_accounted:
  assumes "accounted s"
  shows "accounted (step clk net s)"
proof (cases "earliest (in_flight s)")
  case None
  then show ?thesis using assms
    by (auto simp: step_def accounted_def sent_tick in_flight_tick console_tick
        split: option.split)
next
  case (Some p)
  obtain e where e: "console (settle clk p s) = console s @ [e]"
    using console_settle by blast
  have "Suc (length (in_flight (settle clk p s))) = length (in_flight s)"
    using length_remove1_mem [OF earliest_mem [OF Some]] by (simp add: in_flight_settle)
  with e assms have "accounted (settle clk p s)"
    by (simp add: accounted_def sent_settle)
  with Some assms show ?thesis
    by (auto simp: step_def accounted_def sent_tick in_flight_tick console_tick
        split: option.split)
qed

lemma run_accounted: "accounted (run clk net env k)"
  by (induction k) (simp_all add: startup_accounted step_accounted)

text \<open>Promises that settle within the period never overlap.\<close>

lemma startup_calm: "fst (net 0) < 600000 \<Longrightarrow> calm (startup net env)"
  by (auto simp: calm_def startup_def setInterval_def pingServer_call_def Let_def
      PING_INTERVAL_consts split: prod.split)

lemma list_all_remove1: "list_all P xs \<Longrightarrow> list_all P (remove1 x xs)"
  by (induction xs) auto

lemma step_calm:
  assumes st: "steady env s" and c: "calm s" and fast: "fst (net (length (sent s))) < 600000"
  shows "calm (step clk net s)"
proof -
  from st have t: "interval_timer s = Some \<lparr> expires = length (sent s) * 600000, delay = 600000 \<rparr>"
    and nc: "\<not> crashed s"
    by (simp_all add: steady_def)
  let ?t = "\<lparr> expires = length (sent s) * 600000, delay = 600000 \<rparr>"
  show ?thesis
  proof (cases "earliest (in_flight s)")
    case None
    then have e: "in_flight s = []" by (simp add: earliest_None)
    from None have "step clk net s = tick net ?t s" by (simp add: step_def t nc)
    then show ?thesis using fast by (simp add: calm_def in_flight_tick sent_tick e)
  next
    case (Some p)
    from earliest_mem [OF Some] c have "settles_at p < length (sent s) * 600000"
      by (simp add: calm_def list_all_iff)
    then have "step clk net s = settle clk p s" by (simp add: step_def t nc Some)
    moreover have "length (remove1 p (in_flight s)) \<le> 1"
      using c by (simp add: calm_def length_remove1)
    ultimately show ?thesis using c
      by (simp add: calm_def in_flight_settle sent_settle list_all_remove1)
  qed
qed

lemma run_calm: "(\<And>n. fst (net n) < 600000) \<Longrightarrow> calm (run clk net env k)"
  by (induction k) (simp_all add: startup_calm step_calm [OF run_steady])

lemma cfg_step: "cfg (step clk net s) = cfg s"
  by (simp add: step_def settle_def tick_def pingServer_call_def Let_def
      split: option.split completion.split prod.split)

lemma sublist_mid: "sublist w (a @ b @ w @ c)"
  unfolding sublist_def by (metis append_assoc)

lemma sublist_end: "sublist w (a @ b @ c @ d @ w)"
  unfolding sublist_def by (metis append_assoc append_Nil2)

lemma sublist_last: "sublist w (a @ b @ w)"
  unfolding sublist_def by (metis append_assoc append_Nil2)

lemma mentions_lines:
  "mentions (alive_line ts) ts"
  "mentions (responded_line ts c) ts"
  "mentions (responded_line ts c) (Number_toString c)"
  "mentions (failed_line ts m) ts"
  "mentions (failed_line ts m) m"
  "mentions (starting_line cf) (RAILWAY_URL cf)"
  unfolding mentions_def alive_line_def responded_line_def failed_line_def starting_line_def
  by (simp_all only: log_entry.simps list_ex_Cons_iff list_ex_Nil_iff sublist_mid sublist_end sublist_last
      sublist_order.order_refl simp_thms)

lemma lines_differ:
  "alive_line ts \<noteq> responded_line ts' c"
  "alive_line ts \<noteq> failed_line ts' m"
  "responded_line ts c \<noteq> failed_line ts' m"
  by (simp_all add: alive_line_def responded_line_def failed_line_def check_mark_def
      warning_sign_def cross_mark_def)

lemma Number_toString_503: "Number_toString 503 = ''503''"
  by code_simp

lemma Number_toString_10: "Number_toString 10 = ''10''"
  by code_simp

lemma settle_adds:
  "Normal (drop (length (console s)) (console (settle clk p s)))
     = pingServer_resume (clk (settles_at p)) (outcome p)"
proof -
  obtain e where e: "pingServer_resume (clk (settles_at p)) (outcome p) = Normal [e]"
    using resume_normal by blast
  then show ?thesis by (simp add: settle_def)
qed

lemma run_fields:
  "\<not> crashed (run clk net env k)"
  "cfg (run clk net env k) = module_consts env"
  "interval_timer (run clk net env k)
     = Some \<lparr> expires = length (sent (run clk net env k)) * 600000, delay = 600000 \<rparr>"
  "schedule env (length (sent (run clk net env k))) = sent (run clk net env k)"
  "take 2 (console (run clk net env k))
     = [starting_line (module_consts env), pinging_line (module_consts env)]"
  using run_steady [of env clk net k] by (simp_all add: steady_def)

lemma run_starts:
  "probe_starts (run clk net env k)
     = map (\<lambda>i. i * 600000) [0..<length (sent (run clk net env k))]"
proof -
  have "probe_starts (run clk net env k)
      = map fst (schedule env (length (sent (run clk net env k))))"
    by (simp add: probe_starts_def run_fields(4))
  also have "\<dots> = map (\<lambda>i. i * 600000) [0..<length (sent (run clk net env k))]"
    by (simp add: schedule_def comp_def)
  finally show ?thesis .
qed

lemma run_requests:
  "map snd (sent (run clk net env k))
     = replicate (length (sent (run clk net env k))) (probe_request (module_consts env))"
proof -
  have "map snd (sent (run clk net env k))
      = map snd (schedule env (length (sent (run clk net env k))))"
    by (simp add: run_fields(4))
  also have "\<dots> = replicate (length (sent (run clk net env k))) (probe_request (module_consts env))"
    by (simp add: schedule_def comp_def map_replicate_const)
  finally show ?thesis .
qed

text \<open>Every promise settles, so every probe prints its line.\<close>

lemma earliest_le:
  "earliest ps = Some e \<Longrightarrow> q \<in> set ps \<Longrightarrow> settles_at e \<le> settles_at q"
proof (induction ps arbitrary: e q)
  case Nil
  then show ?case by simp
next
  case (Cons a ps)
  show ?case
  proof (cases "earliest ps")
    case None
    then have "ps = []" by (simp add: earliest_None)
    with Cons.prems show ?thesis by simp
  next
    case (Some b)
    from Cons.prems(1) Some have e: "e = (if settles_at a \<le> settles_at b then a else b)"
      by (simp split: if_splits)
    from Cons.prems(2) have "q = a \<or> q \<in> set ps" by simp
    then show ?thesis
    proof
      assume "q = a"
      with e show ?thesis by (simp split: if_splits)
    next
      assume "q \<in> set ps"
      with Some have "settles_at b \<le> settles_at q" by (rule Cons.IH)
      with e show ?thesis by (simp split: if_splits)
    qed
  qed
qed

lemma length_sent_step:
  "length (sent (step clk net s)) = length (sent s) \<or>
   (\<exists>t. interval_timer s = Some t \<and> step clk net s = tick net t s)"
  by (auto simp: step_def sent_settle split: option.split)

lemma promise_pending:
  "n < length (sent (run clk net env k)) \<Longrightarrow>
     \<exists>j. promise net n \<in> set (in_flight (run clk net env j))"
proof (induction k)
  case 0
  then have "n = 0"
    by (simp add: startup_def setInterval_def pingServer_call_def Let_def split: prod.splits)
  moreover have "promise net 0 \<in> set (in_flight (run clk net env 0))"
    by (simp add: promise_def startup_def setInterval_def pingServer_call_def Let_def
        split: prod.split)
  ultimately show ?case by blast
next
  case (Suc k)
  let ?s = "run clk net env k"
  show ?case
  proof (cases "n < length (sent ?s)")
    case True
    then show ?thesis using Suc.IH by blast
  next
    case False
    with Suc.prems length_sent_step [of clk net ?s]
    obtain t where t: "interval_timer ?s = Some t" and st: "step clk net ?s = tick net t ?s"
      by auto
    from Suc.prems False st have n: "length (sent ?s) = n"
      by (simp add: sent_tick)
    from t run_fields(3) [of clk net env k]
    have "t = \<lparr> expires = length (sent ?s) * 600000, delay = 600000 \<rparr>"
      by simp
    then have "expires t = n * 600000"
      by (simp add: n)
    then have "promise net n \<in> set (in_flight (run clk net env (Suc k)))"
      by (simp add: st in_flight_tick n promise_def)
    then show ?thesis by blast
  qed
qed

lemma pending_settles:
  "steady env s \<Longrightarrow> p \<in> set (in_flight s) \<Longrightarrow>
     \<exists>j. step clk net ((step clk net ^^ j) s) = settle clk p ((step clk net ^^ j) s)"
proof (induction "2 * (Suc (settles_at p) - length (sent s) * 600000) + length (in_flight s)"
    arbitrary: s rule: less_induct)
  case less
  let ?n = "length (sent s)"
  let ?t = "\<lparr> expires = ?n * 600000, delay = 600000 \<rparr>"
  from less.prems(1) have t: "interval_timer s = Some ?t" and nc: "\<not> crashed s"
    by (simp_all add: steady_def)
  from less.prems(2) obtain e where e: "earliest (in_flight s) = Some e"
    by (cases "earliest (in_flight s)") (auto simp: earliest_None)
  show ?case
  proof (cases "settles_at e < ?n * 600000")
    case True
    then have st: "step clk net s = settle clk e s"
      by (simp add: step_def t e nc)
    show ?thesis
    proof (cases "e = p")
      case True
      with st have "step clk net ((step clk net ^^ 0) s) = settle clk p ((step clk net ^^ 0) s)"
        by simp
      then show ?thesis by blast
    next
      case False
      let ?s' = "settle clk e s"
      have "steady env ?s'" using less.prems(1) by (rule settle_steady)
      moreover have "p \<in> set (in_flight ?s')"
        using less.prems(2) False by (simp add: in_flight_settle)
      moreover have "2 * (Suc (settles_at p) - length (sent ?s') * 600000) + length (in_flight ?s')
          < 2 * (Suc (settles_at p) - ?n * 600000) + length (in_flight s)"
        using length_remove1_mem [OF earliest_mem [OF e]]
        by (simp add: in_flight_settle sent_settle)
      ultimately obtain j where
        "step clk net ((step clk net ^^ j) ?s') = settle clk p ((step clk net ^^ j) ?s')"
        using less.hyps by blast
      then have "step clk net ((step clk net ^^ Suc j) s) = settle clk p ((step clk net ^^ Suc j) s)"
        by (simp add: st funpow_swap1)
      then show ?thesis by blast
    qed
  next
    case False
    then have st: "step clk net s = tick net ?t s"
      by (simp add: step_def t e nc)
    let ?s' = "tick net ?t s"
    from earliest_le [OF e less.prems(2)] False have le: "?n * 600000 \<le> settles_at p"
      by simp
    have "steady env ?s'" using less.prems(1) t by (rule tick_steady)
    moreover have "p \<in> set (in_flight ?s')"
      using less.prems(2) by (simp add: in_flight_tick)
    moreover have "2 * (Suc (settles_at p) - length (sent ?s') * 600000) + length (in_flight ?s')
          < 2 * (Suc (settles_at p) - ?n * 600000) + length (in_flight s)"
      using le by (simp add: in_flight_tick sent_tick)
    ultimately obtain j where
      "step clk net ((step clk net ^^ j) ?s') = settle clk p ((step clk net ^^ j) ?s')"
      using less.hyps by blast
    then have "step clk net ((step clk net ^^ Suc j) s) = settle clk p ((step clk net ^^ Suc j) s)"
      by (simp add: st funpow_swap1)
    then show ?thesis by blast
  qed
qed

lemma every_probe_prints:
  "\<exists>k. Normal (drop (length (console (run clk net env k))) (console (run clk net env (Suc k))))
     = pingServer_resume (clk (n * 600000 + fst (net n))) (snd (net n))"
proof -
  obtain k0 where "n < length (sent (run clk net env k0))"
    using every_probe_starts by blast
  then obtain k1 where "promise net n \<in> set (in_flight (run clk net env k1))"
    using promise_pending by blast
  with pending_settles [OF run_steady] obtain j where
    "step clk net ((step clk net ^^ j) (run clk net env k1))
       = settle clk (promise net n) ((step clk net ^^ j) (run clk net env k1))"
    by blast
  then have "run clk net env (Suc (k1 + j)) = settle clk (promise net n) (run clk net env (k1 + j))"
    by (simp add: run_add)
  then have "Normal (drop (length (console (run clk net env (k1 + j))))
        (console (run clk net env (Suc (k1 + j)))))
     = pingServer_resume (clk (settles_at (promise net n))) (outcome (promise net n))"
    by (simp only: settle_adds)
  then show ?thesis by (auto simp: promise_def)
qed

subsection \<open>The outcome of a probe\<close>

text \<open>
  C1: when the promise of a probe settles, \<open>pingServer\<close> prints exactly one entry, chosen
  by the outcome. A status from 200 to 299 gives the success line, which carries the
  timestamp and is neither the warning line nor the error line. Any other status gives
  the warning line, which carries the status code in decimal (503 prints as \<open>503\<close>) and
  the timestamp. A rejected promise gives the error line on the error stream, which
  carries the message of the failure and the timestamp. The entries that a settling
  promise appends to the console are exactly those of the body, with the timestamp read
  at that instant; in every state of the run the console holds the two banners and
  one entry for each probe that has settled; and the n-th probe, whose request takes the
  latency the network gives it, does print its entry at some turn of the event loop.
\<close>

theorem pingServer_logs_outcome:
  "(200 \<le> status r \<and> status r \<le> 299 \<longrightarrow>
      pingServer_resume ts (Fulfilled r) = Normal [alive_line ts])
   \<and> (\<not> (200 \<le> status r \<and> status r \<le> 299) \<longrightarrow>
      pingServer_resume ts (Fulfilled r) = Normal [responded_line ts (status r)])
   \<and> pingServer_resume ts (Rejected e) = Normal [failed_line ts (message e)]
   \<and> mentions (alive_line ts) ts
   \<and> alive_line ts \<noteq> responded_line ts' c \<and> alive_line ts \<noteq> failed_line ts' m
   \<and> mentions (responded_line ts (status r)) (Number_toString (status r))
   \<and> mentions (responded_line ts (status r)) ts
   \<and> Number_toString 503 = ''503''
   \<and> mentions (failed_line ts (message e)) (message e)
   \<and> mentions (failed_line ts (message e)) ts
   \<and> stream (failed_line ts (message e)) = Stderr
   \<and> Normal (drop (length (console s)) (console (settle clk p s)))
        = pingServer_resume (clk (settles_at p)) (outcome p)
   \<and> length (console (run clk net env k)) + length (in_flight (run clk net env k))
        = 2 + length (sent (run clk net env k))
   \<and> (\<exists>j. Normal (drop (length (console (run clk net env j)))
                 (console (run clk net env (Suc j))))
          = pingServer_resume (clk (n * PING_INTERVAL (module_consts env) + fst (net n)))
              (snd (net n)))"
proof -
  have live: "\<exists>j. Normal (drop (length (console (run clk net env j)))
                 (console (run clk net env (Suc j))))
          = pingServer_resume (clk (n * PING_INTERVAL (module_consts env) + fst (net n)))
              (snd (net n))"
    using every_probe_prints [of clk net env n] by (simp only: PING_INTERVAL_consts)
  have "accounted (run clk net env k)" by (rule run_accounted)
  then have count: "length (console (run clk net env k)) + length (in_flight (run clk net env k))
        = 2 + length (sent (run clk net env k))"
    by (simp add: accounted_def)
  have cls: "(200 \<le> status r \<and> status r \<le> 299 \<longrightarrow>
      pingServer_resume ts (Fulfilled r) = Normal [alive_line ts])"
    "(\<not> (200 \<le> status r \<and> status r \<le> 299) \<longrightarrow>
      pingServer_resume ts (Fulfilled r) = Normal [responded_line ts (status r)])"
    "pingServer_resume ts (Rejected e) = Normal [failed_line ts (message e)]"
    by (simp_all add: pingServer_resume_def try_block_def ok_def)
  have err: "stream (failed_line ts (message e)) = Stderr"
    by (simp add: failed_line_def)
  show ?thesis
    by (intro conjI)
      (rule cls count err live mentions_lines lines_differ Number_toString_503 settle_adds)+
qed

theorem pingServer_logs_outcome_witness:
  "200 \<le> status \<lparr> status = 200 \<rparr> \<and> status \<lparr> status = 200 \<rparr> \<le> 299
   \<and> pingServer_resume ''12:00'' (Fulfilled \<lparr> status = 200 \<rparr>) = Normal [alive_line ''12:00'']
   \<and> \<not> (200 \<le> status \<lparr> status = 503 \<rparr> \<and> status \<lparr> status = 503 \<rparr> \<le> 299)
   \<and> pingServer_resume ''12:00'' (Fulfilled \<lparr> status = 503 \<rparr>)
       = Normal [responded_line ''12:00'' 503]"
  using pingServer_logs_outcome [where r = "\<lparr> status = 200 \<rparr>" and ts = "''12:00''"]
    pingServer_logs_outcome [where r = "\<lparr> status = 503 \<rparr>" and ts = "''12:00''"]
  by simp

subsection \<open>Failures stay inside the probe\<close>

text \<open>
  C2: whatever the outcome of the request, the body of \<open>pingServer\<close> completes normally:
  the \<open>try\<close> block throws on a rejected promise and the \<open>catch\<close> clause turns that
  into a printed line. So no run of the process, under any network, ever reaches the
  crashed state, and the timer stays armed.
\<close>

theorem pingServer_never_throws:
  "(\<exists>es. pingServer_resume ts fr = Normal es)
   \<and> try_block ts (Rejected e) = Throw e
   \<and> \<not> crashed (run clk net env k)
   \<and> interval_timer (run clk net env k) \<noteq> None"
proof -
  have "\<exists>es. pingServer_resume ts fr = Normal es"
    using resume_normal [of ts fr] by blast
  moreover have "try_block ts (Rejected e) = Throw e"
    by (simp add: try_block_def)
  ultimately show ?thesis
    by (simp add: run_fields)
qed

subsection \<open>The schedule\<close>

text \<open>
  C3: the first probe starts at instant 0, during startup. In every state of the run,
  under every network (so whatever the outcomes and latencies of the probes so far),
  the i-th probe started at i times the interval. Every probe n + 1 does start, one
  interval after probe n: nothing halts the timer, and nothing moves it.
\<close>

theorem probes_start_on_schedule:
  "probe_starts (startup net env) = [0]
   \<and> probe_starts (run clk net env k)
       = map (\<lambda>i. i * PING_INTERVAL (cfg (run clk net env k)))
           [0..<length (probe_starts (run clk net env k))]
   \<and> (\<exists>j. Suc n < length (probe_starts (run clk net env j))
          \<and> probe_starts (run clk net env j) ! Suc n
              = probe_starts (run clk net env j) ! n + PING_INTERVAL (cfg (run clk net env j)))"
proof -
  have first: "probe_starts (startup net env) = [0]"
    by (simp add: probe_starts_def startup_def setInterval_def pingServer_call_def Let_def
        split: prod.split)
  have all: "probe_starts (run clk net env k)
       = map (\<lambda>i. i * PING_INTERVAL (cfg (run clk net env k)))
           [0..<length (probe_starts (run clk net env k))]"
    using run_starts [of clk net env k]
    by (simp add: run_fields PING_INTERVAL_consts probe_starts_def)
  obtain j where j: "Suc n < length (sent (run clk net env j))"
    using every_probe_starts by blast
  then have "probe_starts (run clk net env j) ! Suc n
      = probe_starts (run clk net env j) ! n + PING_INTERVAL (cfg (run clk net env j))"
    by (simp add: run_starts run_fields PING_INTERVAL_consts)
  with j have "\<exists>j. Suc n < length (probe_starts (run clk net env j))
          \<and> probe_starts (run clk net env j) ! Suc n
              = probe_starts (run clk net env j) ! n + PING_INTERVAL (cfg (run clk net env j))"
    by (auto simp: probe_starts_def)
  with first all show ?thesis by blast
qed

subsection \<open>Probes in flight\<close>

text \<open>
  C4, as amended: when every request settles in less than the interval, at most one
  probe is in flight in every state of the run.
\<close>

theorem prompt_probes_do_not_overlap:
  "\<forall>n. fst (net n) < PING_INTERVAL (module_consts env) \<Longrightarrow>
     length (in_flight (run clk net env k)) \<le> 1"
proof -
  assume "\<forall>n. fst (net n) < PING_INTERVAL (module_consts env)"
  then have "\<And>n. fst (net n) < 600000" by (simp add: PING_INTERVAL_consts)
  then have "calm (run clk net env k)" by (rule run_calm)
  then show ?thesis by (simp add: calm_def)
qed

theorem prompt_probes_do_not_overlap_witness:
  "(\<forall>n. fst (prompt_network n) < PING_INTERVAL (module_consts unset_env))
   \<and> length (in_flight (run plain_clock prompt_network unset_env 3)) \<le> 1"
proof -
  have h: "\<forall>n. fst (prompt_network n) < PING_INTERVAL (module_consts unset_env)"
    by (simp add: prompt_network_def module_consts_def)
  show ?thesis
    using h prompt_probes_do_not_overlap [OF h, of plain_clock 3] by simp
qed

text \<open>
  Without the bound on the latency the property fails: the timer expires whether or not
  the earlier promise has settled. With responses that take 700 seconds, two probes are
  in flight after the first expiry of the timer.
\<close>

theorem probes_overlap_counterexample:
  "\<not> length (in_flight (run plain_clock stalled_network unset_env 1)) \<le> 1"
  by (simp add: step_def startup_def setInterval_def pingServer_call_def tick_def
      stalled_network_def module_consts_def Let_def)

subsection \<open>The interval\<close>

text \<open>
  C5: the interval is 600000 milliseconds, ten times sixty seconds, in the module
  constants and in every state of the run; the timer is armed with that delay, and its
  next expiry is the number of probes started so far times 600000.
\<close>

theorem interval_is_ten_minutes:
  "PING_INTERVAL (module_consts env) = 600000
   \<and> PING_INTERVAL (module_consts env) = 10 * (60 * 1000)
   \<and> PING_INTERVAL (cfg (run clk net env k)) = 600000
   \<and> interval_timer (run clk net env k)
       = Some \<lparr> expires = length (sent (run clk net env k)) * 600000, delay = 600000 \<rparr>"
  by (simp add: run_fields PING_INTERVAL_consts)

subsection \<open>The request\<close>

text \<open>
  C6: a call of \<open>pingServer\<close> sends exactly one request, to the base URL followed by
  \<open>/health\<close>. Every request of a run is a GET whose only header is a User-Agent made
  of the name \<open>KeepAlive-Bot\<close>, a slash and the version \<open>1.0\<close>.
\<close>

theorem probe_sends_one_get:
  "sent (pingServer_call net s) = sent s @ [(now s, probe_request (cfg s))]
   \<and> url (probe_request c) = RAILWAY_URL c @ HEALTH_ENDPOINT c
   \<and> map snd (sent (run clk net env k))
       = replicate (length (sent (run clk net env k)))
           \<lparr> url = RAILWAY_URL (module_consts env) @ ''/health'',
             http_method = ''GET'',
             headers = [(''User-Agent'', ''KeepAlive-Bot'' @ ''/'' @ ''1.0'')] \<rparr>"
proof -
  have "sent (pingServer_call net s) = sent s @ [(now s, probe_request (cfg s))]"
    by (simp add: pingServer_call_def split: prod.split)
  moreover have "url (probe_request c) = RAILWAY_URL c @ HEALTH_ENDPOINT c"
    by (simp add: probe_request_def)
  moreover have "probe_request (module_consts env)
      = \<lparr> url = RAILWAY_URL (module_consts env) @ ''/health'',
             http_method = ''GET'',
             headers = [(''User-Agent'', ''KeepAlive-Bot'' @ ''/'' @ ''1.0'')] \<rparr>"
    by (simp add: probe_request_def module_consts_def)
  ultimately show ?thesis
    using run_requests [of clk net env k] by simp
qed

subsection \<open>The base URL\<close>

text \<open>
  C7: the base URL is fixed by startup from the environment: the placeholder
  \<open>https://your-app.railway.app\<close> when \<open>RAILWAY_URL\<close> is not set, the value of the
  variable when it is set to a non-empty string. Every later state has the URL that
  startup resolved.
\<close>

theorem base_url_from_environment:
  "(env ''RAILWAY_URL'' = None \<longrightarrow>
      RAILWAY_URL (cfg (startup net env)) = ''https://your-app.railway.app'')
   \<and> (env ''RAILWAY_URL'' = Some v \<and> v \<noteq> [] \<longrightarrow> RAILWAY_URL (cfg (startup net env)) = v)
   \<and> RAILWAY_URL (cfg (run clk net env k)) = RAILWAY_URL (cfg (startup net env))"
proof -
  have "cfg (startup net env) = module_consts env"
    using run_fields(2) [of clk net env 0] by simp
  then show ?thesis
    by (simp add: run_fields module_consts_def or_else_def)
qed

theorem base_url_from_environment_witness:
  "unset_env ''RAILWAY_URL'' = None
   \<and> RAILWAY_URL (cfg (startup prompt_network unset_env)) = ''https://your-app.railway.app''
   \<and> example_env ''RAILWAY_URL'' = Some ''https://example.test''
   \<and> RAILWAY_URL (cfg (startup prompt_network example_env)) = ''https://example.test''"
  using base_url_from_environment [where env = unset_env and net = prompt_network]
    base_url_from_environment [where env = example_env and net = prompt_network
      and v = "''https://example.test''"]
  by (simp add: unset_env_def example_env_def)

subsection \<open>The configuration never changes\<close>

text \<open>
  C8: no turn of the event loop changes the module constants (base URL, interval, health
  path): in every state of the run they are the ones startup computed from the
  environment.
\<close>

theorem configuration_is_immutable:
  "cfg (step clk net s) = cfg s
   \<and> cfg (run clk net env k) = cfg (startup net env)
   \<and> cfg (run clk net env k) = module_consts env"
proof -
  have "cfg (startup net env) = module_consts env"
    using run_fields(2) [of clk net env 0] by simp
  then show ?thesis by (simp add: cfg_step run_fields)
qed

text \<open>
  C9: when \<open>RAILWAY_URL\<close> is set to the empty string, the base URL is the placeholder,
  at startup and in every later state.
\<close>

theorem empty_url_falls_back:
  "RAILWAY_URL (cfg (startup net (env(''RAILWAY_URL'' \<mapsto> []))))
     = ''https://your-app.railway.app''
   \<and> RAILWAY_URL (cfg (run clk net (env(''RAILWAY_URL'' \<mapsto> [])) k))
     = ''https://your-app.railway.app''"
proof -
  have "cfg (startup net (env(''RAILWAY_URL'' \<mapsto> [])))
      = module_consts (env(''RAILWAY_URL'' \<mapsto> []))"
    using run_fields(2) [of clk net "env(''RAILWAY_URL'' \<mapsto> [])" 0] by simp
  then show ?thesis by (simp add: run_fields module_consts_def or_else_def)
qed

subsection \<open>The banners\<close>

text \<open>
  C10: when the top level of the module has run, the console holds exactly two lines,
  the first with the resolved base URL and the second with the interval in minutes, 10,
  while the first probe is still in flight. They stay the first two lines of the console
  in every later state.
\<close>

theorem startup_prints_two_banners:
  "console (startup net env)
     = [starting_line (module_consts env), pinging_line (module_consts env)]
   \<and> mentions (starting_line (module_consts env)) (RAILWAY_URL (module_consts env))
   \<and> args (pinging_line (module_consts env)) = [antenna @ '' Pinging every 10 minutes'']
   \<and> length (in_flight (startup net env)) = 1
   \<and> take 2 (console (run clk net env k))
       = [starting_line (module_consts env), pinging_line (module_consts env)]"
proof -
  have "console (startup net env)
     = [starting_line (module_consts env), pinging_line (module_consts env)]"
    "length (in_flight (startup net env)) = 1"
    by (simp_all add: startup_def setInterval_def pingServer_call_def Let_def split: prod.split)
  moreover have "args (pinging_line (module_consts env)) = [antenna @ '' Pinging every 10 minutes'']"
    by (simp add: pinging_line_def PING_INTERVAL_consts Number_toString_10)
  ultimately show ?thesis
    by (simp add: run_fields mentions_lines)
qed

end
